theory Spec2Isabelle
  imports Main
begin

text \<open>
  A shallow embedding of the download organizer. From \<^verbatim>\<open>organizer.py\<close>: classification,
  conflict resolution, the mover for files, the files pass and the compressed-folder
  predicate; from \<^verbatim>\<open>watch_downloads.py\<close>: the event handlers and the per-item operation.
  State that the code mutates (the statistics, the file system, the Processing Set) is
  passed in and returned; an exception is a value of type \<open>exn\<close>. The mover for folders
  and the folders pass are not embedded.
\<close>

section \<open>Paths and strings\<close>

text \<open>
  A path (\<^verbatim>\<open>pathlib.Path\<close>, already expanded and absolute) is the list of its components
  below the root; the root itself is the empty list. The accessors follow
  \<^verbatim>\<open>PurePath.name\<close>, \<^verbatim>\<open>.parent\<close>, \<^verbatim>\<open>.suffix\<close> and \<^verbatim>\<open>.stem\<close> of CPython's pathlib
  (POSIX flavour, the \<^verbatim>\<open>rfind\<close>-based suffix rule).
\<close>

type_synonym path = "string list"

definition path_name :: "path \<Rightarrow> string" where
  "path_name p = (if p = [] then [] else last p)"

definition path_parent :: "path \<Rightarrow> path" where
  "path_parent p = butlast p"

text \<open>\<^verbatim>\<open>str.rfind(c)\<close>: the index of the last occurrence, \<open>None\<close> for Python's \<open>-1\<close>.\<close>

fun rfind :: "char \<Rightarrow> string \<Rightarrow> nat option" where
  "rfind c [] = None"
| "rfind c (x # xs) =
     (case rfind c xs of
        Some i \<Rightarrow> Some (Suc i)
      | None \<Rightarrow> if x = c then Some 0 else None)"

text \<open>\<^verbatim>\<open>suffix\<close>: \<^verbatim>\<open>name[i:] if 0 < i < len(name) - 1 else ''\<close> with \<^verbatim>\<open>i = name.rfind('.')\<close>.\<close>

definition name_suffix :: "string \<Rightarrow> string" where
  "name_suffix n =
     (case rfind CHR ''.'' n of
        Some i \<Rightarrow> if 0 < i \<and> Suc i < length n then drop i n else []
      | None \<Rightarrow> [])"

definition name_stem :: "string \<Rightarrow> string" where
  "name_stem n =
     (case rfind CHR ''.'' n of
        Some i \<Rightarrow> if 0 < i \<and> Suc i < length n then take i n else n
      | None \<Rightarrow> n)"

text \<open>\<^verbatim>\<open>str.lower()\<close> on ASCII text: the 26 capital letters are mapped, every other
  character is kept.\<close>

definition lower_char :: "char \<Rightarrow> char" where
  "lower_char c =
     (case map_of (zip ''ABCDEFGHIJKLMNOPQRSTUVWXYZ'' ''abcdefghijklmnopqrstuvwxyz'') c of
        Some d \<Rightarrow> d
      | None \<Rightarrow> c)"

definition lower :: "string \<Rightarrow> string" where
  "lower s = map lower_char s"

definition startswith :: "string \<Rightarrow> string \<Rightarrow> bool" where
  "startswith s pre = (take (length pre) s = pre)"


text \<open>The decimal rendering of a positive counter inside an f-string.\<close>

definition digit_char :: "nat \<Rightarrow> char" where
  "digit_char d = ''0123456789'' ! d"

fun str_nat :: "nat \<Rightarrow> string" where
  "str_nat n = (if n < 10 then [digit_char n] else str_nat (n div 10) @ [digit_char (n mod 10)])"

declare str_nat.simps [simp del]

text \<open>\<^verbatim>\<open>base / rel\<close> for a configured relative folder name: \<open>rel\<close> is split at \<^verbatim>\<open>/\<close>, empty
  and \<^verbatim>\<open>.\<close> components vanish, and an absolute \<open>rel\<close> replaces \<open>base\<close>.\<close>

fun split_slash :: "string \<Rightarrow> string list" where
  "split_slash [] = [[]]"
| "split_slash (c # cs) =
     (if c = CHR ''/'' then [] # split_slash cs
      else (case split_slash cs of
              x # xs \<Rightarrow> (c # x) # xs
            | [] \<Rightarrow> [[c]]))"

definition joinpath :: "path \<Rightarrow> string \<Rightarrow> path" where
  "joinpath base rel =
     (let parts = filter (\<lambda>c. c \<noteq> [] \<and> c \<noteq> ''.'') (split_slash rel)
      in if startswith rel ''/'' then parts else base @ parts)"

text \<open>\<^verbatim>\<open>dict.get(key, default)\<close> for a key that may be absent.\<close>

definition dict_get :: "'a \<Rightarrow> 'a option \<Rightarrow> 'a" where
  "dict_get d v = (case v of None \<Rightarrow> d | Some x \<Rightarrow> x)"


section \<open>Statistics, configuration, file system\<close>

text \<open>\<^verbatim>\<open>OrganizationStats\<close>; \<open>categories\<close> is the \<^verbatim>\<open>defaultdict(int)\<close>.\<close>

record stats =
  files_moved :: int
  folders_moved :: int
  errors :: int
  skipped :: int
  conflicts_resolved :: int
  categories :: "string \<rightharpoonup> int"

definition initial_stats :: stats where
  "initial_stats =
     \<lparr>files_moved = 0, folders_moved = 0, errors = 0, skipped = 0,
      conflicts_resolved = 0, categories = Map.empty\<rparr>"

text \<open>\<^verbatim>\<open>d[k] += 1\<close> on a \<^verbatim>\<open>defaultdict(int)\<close>.\<close>

definition bump :: "(string \<rightharpoonup> int) \<Rightarrow> string \<Rightarrow> (string \<rightharpoonup> int)" where
  "bump m k = m(k \<mapsto> dict_get 0 (m k) + 1)"

text \<open>
  The loaded YAML document. \<open>file_types\<close> is the mapping in its declared order (a Python
  dict iterates in insertion order); a key that may be missing is an \<open>option\<close>, read
  through \<open>dict_get\<close> with the default the code gives. The two directories are stored as
  \<^verbatim>\<open>_expand_path\<close> returns them.
\<close>

record type_info =
  extensions :: "string list option"
  destination :: "string option"

record settings_section =
  dry_run :: "bool option"
  create_directories :: "bool option"
  handle_conflicts :: "bool option"
  skip_hidden_files :: "bool option"

record config =
  source_directory :: path
  base_destination :: path
  file_types :: "(string \<times> type_info) list"
  other_destination :: "string option"
  settings :: settings_section

text \<open>
  The file system as the code observes it: the regular files and the directories that
  exist. The root always exists.
\<close>

record filesystem =
  files :: "path list"
  dirs :: "path list"

definition is_file :: "filesystem \<Rightarrow> path \<Rightarrow> bool" where
  "is_file fs p = (p \<in> set (files fs))"

definition is_dir :: "filesystem \<Rightarrow> path \<Rightarrow> bool" where
  "is_dir fs p = (p = [] \<or> p \<in> set (dirs fs))"

definition path_exists :: "filesystem \<Rightarrow> path \<Rightarrow> bool" where
  "path_exists fs p = (is_file fs p \<or> is_dir fs p)"

text \<open>\<^verbatim>\<open>Path.iterdir()\<close>: the entries directly below \<open>d\<close>, each once.\<close>

definition iterdir :: "filesystem \<Rightarrow> path \<Rightarrow> path list" where
  "iterdir fs d = filter (\<lambda>p. p \<noteq> [] \<and> path_parent p = d) (remdups (files fs @ dirs fs))"

text \<open>
  Exceptions, as far as the handlers of the code tell them apart. \<open>OSError\<close> stands for
  every \<^verbatim>\<open>OSError\<close> other than \<^verbatim>\<open>PermissionError\<close> and \<^verbatim>\<open>shutil.Error\<close>;
  \<open>OtherException\<close> for every other subclass of \<^verbatim>\<open>Exception\<close>.
\<close>

datatype exn = PermissionError | OSError | ShutilError | OtherException

text \<open>
  What the operating system may refuse beyond what the path sets explain (permissions,
  read-only media, a busy file): an optional exception per primitive call.
\<close>

record faults =
  mkdir_fault :: "path \<Rightarrow> exn option"
  move_fault :: "path \<Rightarrow> path \<Rightarrow> exn option"

definition no_faults :: faults where
  "no_faults = \<lparr>mkdir_fault = (\<lambda>p. None), move_fault = (\<lambda>s d. None)\<rparr>"

text \<open>The non-empty prefixes of a path, shortest first: its ancestors and itself.\<close>

definition prefixes :: "path \<Rightarrow> path list" where
  "prefixes p = map (\<lambda>n. take n p) [1..<Suc (length p)]"

text \<open>
  \<^verbatim>\<open>Path.mkdir(parents=True, exist_ok=True)\<close>: creates the missing directories of the
  chain; raises when the path or an ancestor is a regular file.
\<close>

definition mkdir_parents :: "faults \<Rightarrow> filesystem \<Rightarrow> path \<Rightarrow> exn + filesystem" where
  "mkdir_parents flt fs p =
     (case mkdir_fault flt p of
        Some e \<Rightarrow> Inl e
      | None \<Rightarrow>
          if list_ex (is_file fs) (prefixes p) then Inl OSError
          else Inr (fs\<lparr>dirs := dirs fs @ filter (\<lambda>q. \<not> is_dir fs q) (prefixes p)\<rparr>))"

text \<open>
  \<^verbatim>\<open>shutil.move(src, dst)\<close> for a regular file \<open>src\<close>: into \<open>dst\<close> when \<open>dst\<close> is a directory
  (\<^verbatim>\<open>shutil.Error\<close> when the name is taken there), else onto \<open>dst\<close>, replacing a file that
  is there; \<^verbatim>\<open>OSError\<close> when the source is gone or the target's directory is missing.
\<close>

definition shutil_move :: "faults \<Rightarrow> filesystem \<Rightarrow> path \<Rightarrow> path \<Rightarrow> exn + filesystem" where
  "shutil_move flt fs src dst =
     (case move_fault flt src dst of
        Some e \<Rightarrow> Inl e
      | None \<Rightarrow>
          if \<not> is_file fs src then Inl OSError
          else
            let real_dst = (if is_dir fs dst then dst @ [path_name src] else dst)
            in if is_dir fs dst \<and> path_exists fs real_dst then Inl ShutilError
               else if \<not> is_dir fs (path_parent real_dst) then Inl OSError
               else Inr (fs\<lparr>files := List.insert real_dst (removeAll src (files fs))\<rparr>))"


section \<open>The organizer (organizer.py)\<close>

subsection \<open>Classification\<close>

text \<open>The \<^verbatim>\<open>for category, info in file_types.items()\<close> loop with its early return.\<close>

fun find_category :: "string \<Rightarrow> (string \<times> type_info) list \<Rightarrow> (string \<times> type_info) option" where
  "find_category extension [] = None"
| "find_category extension ((category, info) # rest) =
     (if extension \<in> set (dict_get [] (extensions info)) then Some (category, info)
      else find_category extension rest)"

definition get_destination_for_file :: "config \<Rightarrow> stats \<Rightarrow> path \<Rightarrow> path \<times> stats" where
  "get_destination_for_file cfg st file_path =
     (let extension = lower (name_suffix (path_name file_path));
          base_dest = base_destination cfg
      in case find_category extension (file_types cfg) of
           Some (category, info) \<Rightarrow>
             (joinpath base_dest (dict_get category (destination info)),
              st\<lparr>categories := bump (categories st) category\<rparr>)
         | None \<Rightarrow>
             (joinpath base_dest (dict_get ''Other'' (other_destination cfg)),
              st\<lparr>categories := bump (categories st) ''other''\<rparr>))"

definition should_skip_file :: "config \<Rightarrow> path \<Rightarrow> bool" where
  "should_skip_file cfg file_path =
     (dict_get True (skip_hidden_files (settings cfg)) \<and> startswith (path_name file_path) ''.'')"

subsection \<open>Conflict resolution\<close>

definition new_name :: "string \<Rightarrow> string \<Rightarrow> nat \<Rightarrow> string" where
  "new_name stm suf counter = stm @ ''_'' @ str_nat counter @ suf"

lemma digit_char_inj:
  assumes "a < 10" and "b < 10" and "digit_char a = digit_char b"
  shows "a = b"
proof -
  have "distinct ''0123456789''" and "length ''0123456789'' = 10" by simp_all
  with assms show ?thesis
    unfolding digit_char_def by (metis nth_eq_iff_index_eq)
qed

lemma str_nat_nonempty: "str_nat n \<noteq> []"
  by (subst str_nat.simps) simp

lemma str_nat_inj: "str_nat n = str_nat m \<Longrightarrow> n = m"
proof (induction n arbitrary: m rule: str_nat.induct)
  case (1 n)
  show ?case
  proof (cases "n < 10")
    case True
    show ?thesis
    proof (cases "m < 10")
      case mt: True
      from "1.prems" True mt have "digit_char n = digit_char m"
        by (simp add: str_nat.simps)
      with True mt show ?thesis by (rule digit_char_inj)
    next
      case mf: False
      from "1.prems" True mf
      have "[digit_char n] = str_nat (m div 10) @ [digit_char (m mod 10)]"
        by (simp add: str_nat.simps[of n] str_nat.simps[of m])
      then have "str_nat (m div 10) = []" by simp
      then show ?thesis by (simp add: str_nat_nonempty)
    qed
  next
    case False
    show ?thesis
    proof (cases "m < 10")
      case mt: True
      from "1.prems" False mt
      have "str_nat (n div 10) @ [digit_char (n mod 10)] = [digit_char m]"
        by (simp add: str_nat.simps[of n] str_nat.simps[of m])
      then have "str_nat (n div 10) = []" by simp
      then show ?thesis by (simp add: str_nat_nonempty)
    next
      case mf: False
      from "1.prems" False mf
      have "str_nat (n div 10) @ [digit_char (n mod 10)]
              = str_nat (m div 10) @ [digit_char (m mod 10)]"
        by (simp add: str_nat.simps[of n] str_nat.simps[of m])
      then have hi: "str_nat (n div 10) = str_nat (m div 10)"
        and lo: "digit_char (n mod 10) = digit_char (m mod 10)" by simp_all
      from "1.IH"[OF False hi] have q: "n div 10 = m div 10" .
      have "n mod 10 = m mod 10"
        by (rule digit_char_inj[OF _ _ lo]) simp_all
      with q show ?thesis by (metis div_mult_mod_eq)
    qed
  qed
qed

lemma new_name_inj: "new_name stm suf a = new_name stm suf b \<Longrightarrow> a = b"
  by (simp add: new_name_def str_nat_inj)

lemma finite_probes: "finite {k. path_exists fs (par @ [new_name stm suf k])}"
proof -
  let ?h = "\<lambda>k. par @ [new_name stm suf k]"
  have i: "inj ?h" by (rule injI) (simp add: new_name_inj)
  have "finite (?h -` (set (files fs) \<union> set (dirs fs)))"
    by (rule finite_vimageI[OF _ i]) simp
  moreover have "{k. path_exists fs (?h k)} = ?h -` (set (files fs) \<union> set (dirs fs))"
    by (auto simp: path_exists_def is_file_def is_dir_def)
  ultimately show ?thesis by simp
qed

text \<open>
  The \<^verbatim>\<open>while dest_path.exists()\<close> loop; \<open>stm\<close>, \<open>suf\<close> and \<open>par\<close> are the stem, suffix
  and parent taken from the desired path before the loop. It ends because only finitely
  many paths exist and the probed names are pairwise different.
\<close>

function resolve_loop ::
  "filesystem \<Rightarrow> string \<Rightarrow> string \<Rightarrow> path \<Rightarrow> path \<Rightarrow> nat \<Rightarrow> path" where
  "resolve_loop fs stm suf par dest_path counter =
     (if path_exists fs dest_path
      then resolve_loop fs stm suf par (par @ [new_name stm suf counter]) (counter + 1)
      else dest_path)"
  by pat_completeness auto
termination
proof (relation "measure (\<lambda>(fs, stm, suf, par, dest_path, counter).
          if path_exists fs dest_path
          then Suc (card {k. counter \<le> k \<and> path_exists fs (par @ [new_name stm suf k])})
          else 0)")
  show "wf (measure (\<lambda>(fs, stm, suf, par, dest_path, counter).
          if path_exists fs dest_path
          then Suc (card {k. counter \<le> k \<and> path_exists fs (par @ [new_name stm suf k])})
          else 0))" by simp
next
  fix fs :: filesystem and stm suf :: string and par dest_path :: path and counter :: nat
  assume ex: "path_exists fs dest_path"
  let ?S = "\<lambda>c. {k. c \<le> k \<and> path_exists fs (par @ [new_name stm suf k])}"
  have fin: "finite (?S counter)"
    by (rule finite_subset[OF _ finite_probes[of fs par stm suf]]) auto
  have "card (?S (counter + 1)) < card (?S counter)"
    if c: "path_exists fs (par @ [new_name stm suf counter])"
  proof -
    have "counter \<in> ?S counter" "counter \<notin> ?S (counter + 1)" using c by simp_all
    moreover have "?S (counter + 1) \<subseteq> ?S counter" by auto
    ultimately have "?S (counter + 1) \<subset> ?S counter" by blast
    with fin show ?thesis by (rule psubset_card_mono)
  qed
  then show "((fs, stm, suf, par, par @ [new_name stm suf counter], counter + 1),
              (fs, stm, suf, par, dest_path, counter))
        \<in> measure (\<lambda>(fs, stm, suf, par, dest_path, counter).
          if path_exists fs dest_path
          then Suc (card {k. counter \<le> k \<and> path_exists fs (par @ [new_name stm suf k])})
          else 0)"
    using ex by simp
qed

declare resolve_loop.simps [simp del]

definition resolve_conflict :: "filesystem \<Rightarrow> stats \<Rightarrow> path \<Rightarrow> path \<times> stats" where
  "resolve_conflict fs st dest_path =
     (if \<not> path_exists fs dest_path then (dest_path, st)
      else
        let st1 = st\<lparr>conflicts_resolved := conflicts_resolved st + 1\<rparr>;
            stm = name_stem (path_name dest_path);
            suf = name_suffix (path_name dest_path);
            par = path_parent dest_path
        in (resolve_loop fs stm suf par dest_path 1, st1))"

subsection \<open>Moving one file\<close>

text \<open>
  The body of the \<^verbatim>\<open>try\<close> block of \<^verbatim>\<open>_move_file\<close>. The first component tells how the
  block ends: \<open>Inl e\<close> when it raises \<open>e\<close>, \<open>Inr ()\<close> when it reaches \<^verbatim>\<open>return True\<close>.
  The statistics and the file system are returned as they stand at that moment, since
  the block mutates them in place. Sources are regular files (the batch pass tests
  \<^verbatim>\<open>is_file\<close>, the watcher drops directory events); logger calls have no effect on
  control flow and are left out.
\<close>

definition move_file_try ::
  "config \<Rightarrow> faults \<Rightarrow> stats \<Rightarrow> filesystem \<Rightarrow> path \<Rightarrow> path \<Rightarrow> bool
     \<Rightarrow> (exn + unit) \<times> stats \<times> filesystem" where
  "move_file_try cfg flt st fs source destination_folder dry =
     (case (if dict_get True (create_directories (settings cfg)) \<and> \<not> dry
            then mkdir_parents flt fs destination_folder
            else Inr fs) of
        Inl e \<Rightarrow> (Inl e, st, fs)
      | Inr fs1 \<Rightarrow>
          let dest_path = destination_folder @ [path_name source];
              (dest_path, st1) =
                 (if dict_get True (handle_conflicts (settings cfg))
                  then resolve_conflict fs1 st dest_path
                  else (dest_path, st))
          in if dry then (Inr (), st1\<lparr>files_moved := files_moved st1 + 1\<rparr>, fs1)
             else (case shutil_move flt fs1 source dest_path of
                     Inl e \<Rightarrow> (Inl e, st1, fs1)
                   | Inr fs2 \<Rightarrow> (Inr (), st1\<lparr>files_moved := files_moved st1 + 1\<rparr>, fs2)))"

text \<open>The three \<^verbatim>\<open>except\<close> clauses of \<^verbatim>\<open>_move_file\<close>, in their order.\<close>

definition move_file_except :: "exn \<Rightarrow> stats \<Rightarrow> bool \<times> stats" where
  "move_file_except e st =
     (case e of
        PermissionError \<Rightarrow> (False, st\<lparr>errors := errors st + 1\<rparr>)
      | ShutilError \<Rightarrow> (False, st\<lparr>errors := errors st + 1\<rparr>)
      | _ \<Rightarrow> (False, st\<lparr>errors := errors st + 1\<rparr>))"

definition move_file ::
  "config \<Rightarrow> faults \<Rightarrow> stats \<Rightarrow> filesystem \<Rightarrow> path \<Rightarrow> path \<Rightarrow> bool
     \<Rightarrow> bool \<times> stats \<times> filesystem" where
  "move_file cfg flt st fs source destination_folder dry =
     (case move_file_try cfg flt st fs source destination_folder dry of
        (Inr u, st1, fs1) \<Rightarrow> (True, st1, fs1)
      | (Inl e, st1, fs1) \<Rightarrow>
          (case move_file_except e st1 of (success, st2) \<Rightarrow> (success, st2, fs1)))"

subsection \<open>The files pass\<close>

text \<open>The \<^verbatim>\<open>for item in source_dir.iterdir()\<close> loop of \<^verbatim>\<open>organize_files\<close> over the listing.\<close>

fun organize_files_loop ::
  "config \<Rightarrow> faults \<Rightarrow> bool \<Rightarrow> path list \<Rightarrow> stats \<times> filesystem \<Rightarrow> stats \<times> filesystem" where
  "organize_files_loop cfg flt dry [] (st, fs) = (st, fs)"
| "organize_files_loop cfg flt dry (item # items) (st, fs) =
     (if is_file fs item then
        if should_skip_file cfg item
        then organize_files_loop cfg flt dry items (st\<lparr>skipped := skipped st + 1\<rparr>, fs)
        else
          (case get_destination_for_file cfg st item of
             (dest_folder, st1) \<Rightarrow>
               (case move_file cfg flt st1 fs item dest_folder dry of
                  (success, st2, fs2) \<Rightarrow> organize_files_loop cfg flt dry items (st2, fs2)))
      else organize_files_loop cfg flt dry items (st, fs))"

text \<open>
  \<^verbatim>\<open>organize_files\<close>. A missing source directory is logged and the pass returns; a source
  path that is not a directory makes \<^verbatim>\<open>iterdir\<close> raise, which leaves the method.
\<close>

definition organize_files ::
  "config \<Rightarrow> faults \<Rightarrow> bool \<Rightarrow> stats \<times> filesystem \<Rightarrow> exn option \<times> stats \<times> filesystem" where
  "organize_files cfg flt dry sf =
     (let source_dir = source_directory cfg
      in if \<not> path_exists (snd sf) source_dir then (None, sf)
         else if \<not> is_dir (snd sf) source_dir then (Some OSError, sf)
         else (None, organize_files_loop cfg flt dry (iterdir (snd sf) source_dir) sf))"

text \<open>\<^verbatim>\<open>main\<close>: the flag handed to \<^verbatim>\<open>run\<close>, and the files pass \<^verbatim>\<open>run\<close> starts with it.\<close>

definition main_dry_run :: "bool \<Rightarrow> config \<Rightarrow> bool" where
  "main_dry_run args_dry_run cfg = (args_dry_run \<or> dict_get False (dry_run (settings cfg)))"

definition main_files_pass ::
  "bool \<Rightarrow> config \<Rightarrow> faults \<Rightarrow> filesystem \<Rightarrow> exn option \<times> stats \<times> filesystem" where
  "main_files_pass args_dry_run cfg flt fs =
     organize_files cfg flt (main_dry_run args_dry_run cfg) (initial_stats, fs)"

subsection \<open>Compressed folders\<close>






datatype log_level = DEBUG | INFO | WARNING | ERROR



section \<open>The watcher (watch\_downloads.py)\<close>


text \<open>
  The handler object: the organizer's statistics, the file system, and the set of
  paths being processed.
\<close>

record handler =
  organizer_stats :: stats
  world :: filesystem
  processing :: "path set"

text \<open>
  What the handler reads from outside: the organizer's configuration, the faults of the
  operating system, an exception that \<^verbatim>\<open>Path.exists()\<close> may re-raise for a path, and the
  two sizes \<^verbatim>\<open>stat()\<close> reports around the wait of \<^verbatim>\<open>_is_file_stable\<close> (\<open>None\<close> when
  \<^verbatim>\<open>stat\<close> raises \<^verbatim>\<open>OSError\<close>).
\<close>

record watch_env =
  organizer_config :: config
  os_faults :: faults
  exists_fault :: "path \<Rightarrow> exn option"
  size_first :: "path \<Rightarrow> nat option"
  size_second :: "path \<Rightarrow> nat option"



text \<open>
  \<^verbatim>\<open>_organize_file\<close>. The existence test stands before the \<^verbatim>\<open>try\<close>, so an exception it
  re-raises leaves the method; the first component is that exception, if any. Inside the
  \<^verbatim>\<open>try\<close> the mover is called with \<^verbatim>\<open>dry_run=False\<close>.
\<close>

definition organize_file :: "watch_env \<Rightarrow> handler \<Rightarrow> path \<Rightarrow> exn option \<times> handler" where
  "organize_file env h file_path =
     (case exists_fault env file_path of
        Some e \<Rightarrow> (Some e, h)
      | None \<Rightarrow>
          if \<not> path_exists (world h) file_path then (None, h)
          else if should_skip_file (organizer_config env) file_path then (None, h)
          else
            (case get_destination_for_file (organizer_config env) (organizer_stats h) file_path of
               (dest_folder, st1) \<Rightarrow>
                 (case move_file (organizer_config env) (os_faults env) st1 (world h)
                         file_path dest_folder False of
                    (success, st2, fs2) \<Rightarrow>
                      (None, h\<lparr>organizer_stats := st2, world := fs2\<rparr>))))"







definition initial_handler :: "filesystem \<Rightarrow> handler" where
  "initial_handler fs = \<lparr>organizer_stats = initial_stats, world = fs, processing = {}\<rparr>"


section \<open>Notions used to state the properties\<close>

text \<open>The \<open>N\<close>-th name the resolver probes for a desired path: \<^verbatim>\<open>{stem}_{N}{suffix}\<close> in
  the same directory.\<close>

definition candidate :: "path \<Rightarrow> nat \<Rightarrow> path" where
  "candidate p N =
     path_parent p @ [name_stem (path_name p) @ ''_'' @ str_nat N @ name_suffix (path_name p)]"





text \<open>
  A category table in which \<^verbatim>\<open>.pdf\<close> and \<^verbatim>\<open>.txt\<close> are each listed by two categories, with
  all settings and the fallback folder left to their defaults.
\<close>

definition default_settings :: settings_section where
  "default_settings =
     \<lparr>dry_run = None, create_directories = None,
      handle_conflicts = None, skip_hidden_files = None\<rparr>"

definition demo_config :: config where
  "demo_config =
     \<lparr>source_directory = [''dl''],
      base_destination = [''st''],
      file_types =
        [(''pdf'', \<lparr>extensions = Some [''.pdf''], destination = Some ''PDF''\<rparr>),
         (''docs'', \<lparr>extensions = Some [''.pdf'', ''.txt''], destination = Some ''Docs''\<rparr>),
         (''text'', \<lparr>extensions = Some [''.txt''], destination = None\<rparr>),
         (''zips'', \<lparr>extensions = Some [''.zip''], destination = Some ''Compressed''\<rparr>)],
      other_destination = None,
      settings = default_settings\<rparr>"

text \<open>A category table whose only extension is written in capitals.\<close>

definition upper_config :: config where
  "upper_config =
     \<lparr>source_directory = [''dl''],
      base_destination = [''st''],
      file_types = [(''pdf'', \<lparr>extensions = Some [''.PDF''], destination = Some ''PDF''\<rparr>)],
      other_destination = Some ''Other'',
      settings = default_settings\<rparr>"


text \<open>
  A download folder with two documents and a hidden file; an operating system that
  refuses to move \<^verbatim>\<open>a.pdf\<close>; and a storage folder in which the name \<^verbatim>\<open>PDF\<close> is taken by
  a regular file.
\<close>

definition demo_fs :: filesystem where
  "demo_fs = \<lparr>files = [[''dl'', ''a.pdf''], [''dl'', ''b.txt''], [''dl'', ''.hid'']],
               dirs = [[''dl''], [''st'']]\<rparr>"











text \<open>
  The configuration above with the dry-run toggle of its settings section switched on; a
  watcher environment without faults, in which every file has a stable size; and one in
  which the existence test raises.
\<close>

definition dry_config :: config where
  "dry_config = demo_config\<lparr>settings := default_settings\<lparr>dry_run := Some True\<rparr>\<rparr>"

definition quiet_env :: "config \<Rightarrow> watch_env" where
  "quiet_env cfg =
     \<lparr>organizer_config = cfg, os_faults = no_faults, exists_fault = (\<lambda>p. None),
      size_first = (\<lambda>p. Some 10), size_second = (\<lambda>p. Some 10)\<rparr>"



section \<open>Conflict resolution: properties\<close>

lemmas eval_paths = path_exists_def is_file_def is_dir_def path_name_def path_parent_def
  name_stem_def name_suffix_def new_name_def str_nat.simps digit_char_def candidate_def

lemma resolve_loop_first_free:
  "path_exists fs dest_path \<Longrightarrow>
   \<exists>N\<ge>counter. resolve_loop fs stm suf par dest_path counter = par @ [new_name stm suf N]
      \<and> \<not> path_exists fs (par @ [new_name stm suf N])
      \<and> (\<forall>k. counter \<le> k \<and> k < N \<longrightarrow> path_exists fs (par @ [new_name stm suf k]))"
proof (induction fs stm suf par dest_path counter rule: resolve_loop.induct)
  case (1 fs stm suf par dest_path counter)
  let ?c = "par @ [new_name stm suf counter]"
  have step: "resolve_loop fs stm suf par dest_path counter
                = resolve_loop fs stm suf par ?c (counter + 1)"
    using "1.prems" by (subst resolve_loop.simps) simp
  show ?case
  proof (cases "path_exists fs ?c")
    case False
    then have "resolve_loop fs stm suf par ?c (counter + 1) = ?c"
      by (subst resolve_loop.simps) simp
    with step False show ?thesis by auto
  next
    case True
    from "1.IH"[OF "1.prems" True] obtain N where
      n: "counter + 1 \<le> N"
         "resolve_loop fs stm suf par ?c (counter + 1) = par @ [new_name stm suf N]"
         "\<not> path_exists fs (par @ [new_name stm suf N])"
         "\<forall>k. counter + 1 \<le> k \<and> k < N \<longrightarrow> path_exists fs (par @ [new_name stm suf k])"
      by blast
    have "\<forall>k. counter \<le> k \<and> k < N \<longrightarrow> path_exists fs (par @ [new_name stm suf k])"
    proof (intro allI impI)
      fix k assume k: "counter \<le> k \<and> k < N"
      show "path_exists fs (par @ [new_name stm suf k])"
      proof (cases "k = counter")
        case True with \<open>path_exists fs ?c\<close> show ?thesis by simp
      next
        case False with k n(4) show ?thesis by simp
      qed
    qed
    with n step show ?thesis by (intro exI[of _ N]) simp
  qed
qed

lemma resolve_conflict_absent:
  "\<not> path_exists fs p \<Longrightarrow> resolve_conflict fs st p = (p, st)"
  by (simp add: resolve_conflict_def)

lemma resolve_conflict_present:
  assumes "path_exists fs p"
  shows "\<exists>N\<ge>1. resolve_conflict fs st p
             = (candidate p N, st\<lparr>conflicts_resolved := conflicts_resolved st + 1\<rparr>)
         \<and> \<not> path_exists fs (candidate p N)
         \<and> (\<forall>k. 1 \<le> k \<and> k < N \<longrightarrow> path_exists fs (candidate p k))"
  using resolve_loop_first_free[OF assms, of 1 "name_stem (path_name p)"
          "name_suffix (path_name p)" "path_parent p"] assms
  by (auto simp add: resolve_conflict_def candidate_def new_name_def Let_def)




lemma resolve_conflict_fresh: "\<not> path_exists fs (fst (resolve_conflict fs st p))"
proof (cases "path_exists fs p")
  case True
  from resolve_conflict_present[OF True, of st] show ?thesis by auto
next
  case False
  then show ?thesis by (simp add: resolve_conflict_absent)
qed







section \<open>Classification: properties\<close>

lemmas eval_strings = lower_def lower_char_def startswith_def joinpath_def dict_get_def bump_def

lemma find_category_first:
  assumes "extension \<in> set (dict_get [] (extensions info))"
    and "\<forall>(c, i) \<in> set pre. extension \<notin> set (dict_get [] (extensions i))"
  shows "find_category extension (pre @ (category, info) # post) = Some (category, info)"
  using assms by (induction pre) auto

lemma lower_char_dot: "lower_char c = CHR ''.'' \<longleftrightarrow> c = CHR ''.''"
proof (cases "map_of (zip ''ABCDEFGHIJKLMNOPQRSTUVWXYZ'' ''abcdefghijklmnopqrstuvwxyz'') c")
  case None
  then show ?thesis by (simp add: lower_char_def)
next
  case (Some d)
  then have m: "(c, d) \<in> set (zip ''ABCDEFGHIJKLMNOPQRSTUVWXYZ'' ''abcdefghijklmnopqrstuvwxyz'')"
    by (rule map_of_SomeD)
  from m have "c \<in> set ''ABCDEFGHIJKLMNOPQRSTUVWXYZ''" by (rule set_zip_leftD)
  then have c: "c \<noteq> CHR ''.''" by auto
  from m have "d \<in> set ''abcdefghijklmnopqrstuvwxyz''" by (rule set_zip_rightD)
  then have "d \<noteq> CHR ''.''" by auto
  with Some c show ?thesis by (simp add: lower_char_def)
qed

lemma rfind_lower: "rfind CHR ''.'' (lower n) = rfind CHR ''.'' n"
  by (induction n) (simp_all add: lower_def lower_char_dot)

lemma suffix_lower: "name_suffix (lower n) = lower (name_suffix n)"
  by (simp add: name_suffix_def rfind_lower split: option.splits)
     (simp add: lower_def drop_map)

lemma lower_append: "lower (a @ b) = lower a @ lower b"
  by (simp add: lower_def)

text \<open>
  C2. When the lower-cased extension of the file is listed by a category of the table
  and by none of the categories declared before it, the file is assigned to that
  category (its destination is returned and its counter incremented), whatever the
  categories declared after it list: of several categories listing the extension, the
  first in declared order wins.
\<close>

theorem first_category_wins:
  assumes "file_types cfg = pre @ (category, info) # post"
    and "lower (name_suffix (path_name file_path)) \<in> set (dict_get [] (extensions info))"
    and "\<forall>(c, i) \<in> set pre.
           lower (name_suffix (path_name file_path)) \<notin> set (dict_get [] (extensions i))"
  shows "get_destination_for_file cfg st file_path =
           (joinpath (base_destination cfg) (dict_get category (destination info)),
            st\<lparr>categories := bump (categories st) category\<rparr>)"
  using find_category_first[OF assms(2,3), of category post] assms(1)
  by (simp add: get_destination_for_file_def Let_def)

theorem first_category_wins_witness:
  "file_types demo_config =
     [(''pdf'', \<lparr>extensions = Some [''.pdf''], destination = Some ''PDF''\<rparr>)]
     @ (''docs'', \<lparr>extensions = Some [''.pdf'', ''.txt''], destination = Some ''Docs''\<rparr>)
     # [(''text'', \<lparr>extensions = Some [''.txt''], destination = None\<rparr>),
        (''zips'', \<lparr>extensions = Some [''.zip''], destination = Some ''Compressed''\<rparr>)]
   \<and> lower (name_suffix (path_name [''dl'', ''b.TXT''])) = ''.txt''
   \<and> get_destination_for_file demo_config initial_stats [''dl'', ''b.TXT'']
       = ([''st'', ''Docs''], initial_stats\<lparr>categories := [''docs'' \<mapsto> 1]\<rparr>)"
proof -
  let ?pre = "[(''pdf'', \<lparr>extensions = Some [''.pdf''], destination = Some ''PDF''\<rparr>)]"
  let ?info = "\<lparr>extensions = Some [''.pdf'', ''.txt''], destination = Some ''Docs''\<rparr>"
  let ?post = "[(''text'', \<lparr>extensions = Some [''.txt''], destination = None\<rparr>),
                (''zips'', \<lparr>extensions = Some [''.zip''], destination = Some ''Compressed''\<rparr>)]"
  have t: "file_types demo_config = ?pre @ (''docs'', ?info) # ?post"
    by (simp add: demo_config_def)
  have e: "lower (name_suffix (path_name [''dl'', ''b.TXT''])) = ''.txt''"
    by (simp add: eval_paths eval_strings)
  have a: "lower (name_suffix (path_name [''dl'', ''b.TXT''])) \<in> set (dict_get [] (extensions ?info))"
    by (simp add: e) (simp add: dict_get_def)
  have b: "\<forall>(c, i) \<in> set ?pre.
             lower (name_suffix (path_name [''dl'', ''b.TXT''])) \<notin> set (dict_get [] (extensions i))"
    by (simp add: e) (simp add: dict_get_def)
  have "get_destination_for_file demo_config initial_stats [''dl'', ''b.TXT'']
          = (joinpath (base_destination demo_config) (dict_get ''docs'' (destination ?info)),
             initial_stats\<lparr>categories := bump (categories initial_stats) ''docs''\<rparr>)"
    by (rule first_category_wins[OF t a b])
  then have "get_destination_for_file demo_config initial_stats [''dl'', ''b.TXT'']
          = ([''st'', ''Docs''], initial_stats\<lparr>categories := [''docs'' \<mapsto> 1]\<rparr>)"
    by (simp add: demo_config_def initial_stats_def eval_strings)
  with t e show ?thesis by simp
qed

text \<open>
  C3, as the claim states it, fails: the extension of the file is lower-cased, the
  extensions the table lists are not. With \<^verbatim>\<open>.PDF\<close> listed, the file \<^verbatim>\<open>a.PDF\<close>, whose
  extension is the listed one, is not assigned to that category but to the fallback.
\<close>

theorem case_insensitive_counterexample:
  "file_types upper_config
     = [(''pdf'', \<lparr>extensions = Some [''.PDF''], destination = Some ''PDF''\<rparr>)]
   \<and> name_suffix (path_name [''dl'', ''a.PDF'']) = ''.PDF''
   \<and> get_destination_for_file upper_config initial_stats [''dl'', ''a.PDF'']
       = ([''st'', ''Other''], initial_stats\<lparr>categories := [''other'' \<mapsto> 1]\<rparr>)
   \<and> get_destination_for_file upper_config initial_stats [''dl'', ''a.pdf'']
       = ([''st'', ''Other''], initial_stats\<lparr>categories := [''other'' \<mapsto> 1]\<rparr>)"
  by (simp add: get_destination_for_file_def upper_config_def initial_stats_def
        eval_paths eval_strings)

text \<open>
  C3, amended. Classification lower-cases the extension of the file and looks it up, as
  it is then, among the extensions each category lists. Two file names that differ only
  in the case of their extension yield identical results; and a file whose extension
  equals, up to case, an extension that a category lists in lower case is assigned to
  that category, provided no category declared before it lists the lower-cased extension.
\<close>

theorem classification_case_insensitive:
  "(path_name pa = s @ ea \<and> path_name pb = s @ eb \<and> lower ea = lower eb \<longrightarrow>
      get_destination_for_file cfg st pa = get_destination_for_file cfg st pb)
   \<and> (file_types cfg = pre @ (category, info) # post
        \<and> e \<in> set (dict_get [] (extensions info)) \<and> lower e = e
        \<and> lower (name_suffix (path_name p)) = lower e
        \<and> (\<forall>(c, i) \<in> set pre.
              lower (name_suffix (path_name p)) \<notin> set (dict_get [] (extensions i)))
      \<longrightarrow> get_destination_for_file cfg st p =
            (joinpath (base_destination cfg) (dict_get category (destination info)),
             st\<lparr>categories := bump (categories st) category\<rparr>))"
proof (intro conjI impI)
  assume a: "path_name pa = s @ ea \<and> path_name pb = s @ eb \<and> lower ea = lower eb"
  then have "lower (path_name pa) = lower (path_name pb)" by (simp add: lower_append)
  then have "name_suffix (lower (path_name pa)) = name_suffix (lower (path_name pb))" by simp
  then have "lower (name_suffix (path_name pa)) = lower (name_suffix (path_name pb))"
    by (simp add: suffix_lower)
  then show "get_destination_for_file cfg st pa = get_destination_for_file cfg st pb"
    by (simp add: get_destination_for_file_def)
next
  assume a: "file_types cfg = pre @ (category, info) # post
        \<and> e \<in> set (dict_get [] (extensions info)) \<and> lower e = e
        \<and> lower (name_suffix (path_name p)) = lower e
        \<and> (\<forall>(c, i) \<in> set pre.
              lower (name_suffix (path_name p)) \<notin> set (dict_get [] (extensions i)))"
  from a have t: "file_types cfg = pre @ (category, info) # post" by (rule conjunct1)
  from a have "e \<in> set (dict_get [] (extensions info))" "lower e = e"
    "lower (name_suffix (path_name p)) = lower e" by blast+
  then have m: "lower (name_suffix (path_name p)) \<in> set (dict_get [] (extensions info))"
    by metis
  from a have n: "\<forall>(c, i) \<in> set pre.
              lower (name_suffix (path_name p)) \<notin> set (dict_get [] (extensions i))" by blast
  have "find_category (lower (name_suffix (path_name p))) (file_types cfg) = Some (category, info)"
    unfolding t by (rule find_category_first[OF m n])
  then show "get_destination_for_file cfg st p =
            (joinpath (base_destination cfg) (dict_get category (destination info)),
             st\<lparr>categories := bump (categories st) category\<rparr>)"
    by (simp add: get_destination_for_file_def Let_def)
qed

theorem classification_case_insensitive_witness:
  "path_name [''dl'', ''a.PDF''] = ''a'' @ ''.PDF''
   \<and> path_name [''dl'', ''a.pdf''] = ''a'' @ ''.pdf''
   \<and> lower ''.PDF'' = lower ''.pdf''
   \<and> get_destination_for_file demo_config initial_stats [''dl'', ''a.PDF'']
       = get_destination_for_file demo_config initial_stats [''dl'', ''a.pdf'']
   \<and> ''.pdf'' \<in> set (dict_get [] (extensions
         \<lparr>extensions = Some [''.pdf''], destination = Some ''PDF''\<rparr>))
   \<and> lower ''.pdf'' = ''.pdf''
   \<and> lower (name_suffix (path_name [''dl'', ''a.PDF''])) = lower ''.pdf''
   \<and> get_destination_for_file demo_config initial_stats [''dl'', ''a.PDF'']
       = ([''st'', ''PDF''], initial_stats\<lparr>categories := [''pdf'' \<mapsto> 1]\<rparr>)"
proof -
  let ?info = "\<lparr>extensions = Some [''.pdf''], destination = Some ''PDF''\<rparr>"
  let ?post = "[(''docs'', \<lparr>extensions = Some [''.pdf'', ''.txt''], destination = Some ''Docs''\<rparr>),
                (''text'', \<lparr>extensions = Some [''.txt''], destination = None\<rparr>),
                (''zips'', \<lparr>extensions = Some [''.zip''], destination = Some ''Compressed''\<rparr>)]"
  have n: "path_name [''dl'', ''a.PDF''] = ''a'' @ ''.PDF''"
          "path_name [''dl'', ''a.pdf''] = ''a'' @ ''.pdf''"
    by (simp_all add: path_name_def)
  have l: "lower ''.PDF'' = lower ''.pdf''" "lower ''.pdf'' = ''.pdf''"
    by (simp_all add: eval_strings)
  have x: "lower (name_suffix (path_name [''dl'', ''a.PDF''])) = lower ''.pdf''"
    by (simp add: eval_paths eval_strings)
  have t: "file_types demo_config = [] @ (''pdf'', ?info) # ?post"
    by (simp add: demo_config_def)
  have m: "''.pdf'' \<in> set (dict_get [] (extensions ?info))" by (simp add: dict_get_def)
  have b: "\<forall>(c, i) \<in> set ([] :: (string \<times> type_info) list).
             lower (name_suffix (path_name [''dl'', ''a.PDF''])) \<notin> set (dict_get [] (extensions i))"
    by simp
  note thm1 = classification_case_insensitive[where pa = "[''dl'', ''a.PDF'']" and s = "''a''"
         and ea = "''.PDF''" and pb = "[''dl'', ''a.pdf'']" and eb = "''.pdf''"
         and cfg = demo_config and st = initial_stats, THEN conjunct1, rule_format]
  have same: "get_destination_for_file demo_config initial_stats [''dl'', ''a.PDF'']
       = get_destination_for_file demo_config initial_stats [''dl'', ''a.pdf'']"
    by (rule thm1) (intro conjI n l)
  note thm2 = classification_case_insensitive[where cfg = demo_config
         and pre = "[]" and category = "''pdf''" and info = ?info and post = ?post
         and e = "''.pdf''" and p = "[''dl'', ''a.PDF'']" and st = initial_stats,
         THEN conjunct2, rule_format]
  have "get_destination_for_file demo_config initial_stats [''dl'', ''a.PDF'']
          = (joinpath (base_destination demo_config) (dict_get ''pdf'' (destination ?info)),
             initial_stats\<lparr>categories := bump (categories initial_stats) ''pdf''\<rparr>)"
    by (rule thm2) (intro conjI t m l(2) x b)
  then have "get_destination_for_file demo_config initial_stats [''dl'', ''a.PDF'']
          = ([''st'', ''PDF''], initial_stats\<lparr>categories := [''pdf'' \<mapsto> 1]\<rparr>)"
    by (simp add: demo_config_def initial_stats_def eval_strings)
  with n l x m same show ?thesis by simp
qed





section \<open>The mover and the files pass: properties\<close>

lemma resolve_conflict_counters:
  "files_moved (snd (resolve_conflict fs st p)) = files_moved st"
  "errors (snd (resolve_conflict fs st p)) = errors st"
  "skipped (snd (resolve_conflict fs st p)) = skipped st"
  by (simp_all add: resolve_conflict_def Let_def)

lemma get_destination_counters:
  "files_moved (snd (get_destination_for_file cfg st p)) = files_moved st"
  "errors (snd (get_destination_for_file cfg st p)) = errors st"
  "skipped (snd (get_destination_for_file cfg st p)) = skipped st"
  by (simp_all add: get_destination_for_file_def Let_def split: option.splits prod.splits)

lemma mkdir_parents_effect:
  assumes "mkdir_parents flt fs p = Inr fs1"
  shows "files fs1 = files fs" and "set (dirs fs) \<subseteq> set (dirs fs1)"
  using assms by (auto simp: mkdir_parents_def split: option.splits if_splits)

lemma mkdir_parents_creates:
  assumes "mkdir_parents flt fs p = Inr fs1"
  shows "is_dir fs1 p"
proof (cases "p = []")
  case True
  then show ?thesis by (simp add: is_dir_def)
next
  case False
  then have "p \<in> set (prefixes p)"
    by (cases p) (auto simp: prefixes_def image_iff intro!: bexI[of _ "length p"])
  with assms show ?thesis
    by (auto simp: mkdir_parents_def is_dir_def split: option.splits if_splits)
qed

lemma shutil_move_effect:
  assumes "shutil_move flt fs src dst = Inr fs2"
  shows "\<exists>real_dst. files fs2 = List.insert real_dst (removeAll src (files fs))
           \<and> dirs fs2 = dirs fs \<and> \<not> is_dir fs real_dst
           \<and> real_dst = (if is_dir fs dst then dst @ [path_name src] else dst)
           \<and> is_dir fs (path_parent real_dst) \<and> is_file fs src"
  using assms
  by (auto simp: shutil_move_def Let_def path_exists_def split: option.splits if_splits)

lemma move_file_except_eq: "move_file_except e st = (False, st\<lparr>errors := errors st + 1\<rparr>)"
  by (cases e) (simp_all add: move_file_except_def)

text \<open>The counters after one move.\<close>

lemma move_file_counters:
  assumes "move_file cfg flt st fs src dst dry = (ok, st2, fs2)"
  shows "files_moved st2 = files_moved st + (if ok then 1 else 0)"
    and "errors st2 = errors st + (if ok then 0 else 1)"
    and "skipped st2 = skipped st"
  using assms
  by (auto simp: move_file_def move_file_try_def move_file_except_eq Let_def split_beta
        resolve_conflict_counters
      split: sum.splits if_splits)





lemma move_file_dry:
  "move_file cfg flt st fs src dst True =
     (True,
      (if dict_get True (handle_conflicts (settings cfg))
       then snd (resolve_conflict fs st (dst @ [path_name src])) else st)
        \<lparr>files_moved := files_moved st + 1\<rparr>,
      fs)"
  by (simp add: move_file_def move_file_try_def Let_def split_beta resolve_conflict_counters)


lemma organize_files_loop_dry:
  "organize_files_loop cfg flt True items (st, fs) = (st', fs')
     \<Longrightarrow> fs' = fs \<and> errors st' = errors st"
proof (induction items arbitrary: st)
  case Nil
  then show ?case by simp
next
  case (Cons item items)
  show ?case
  proof (cases "is_file fs item \<and> \<not> should_skip_file cfg item")
    case False
    with Cons.prems Cons.IH[of "st\<lparr>skipped := skipped st + 1\<rparr>"] Cons.IH[of st]
    show ?thesis by (auto split: if_splits)
  next
    case True
    obtain dest_folder st1 where g: "get_destination_for_file cfg st item = (dest_folder, st1)"
      by (cases "get_destination_for_file cfg st item")
    obtain st2 where m: "move_file cfg flt st1 fs item dest_folder True = (True, st2, fs)"
      and e: "errors st2 = errors st1"
      by (simp add: move_file_dry resolve_conflict_counters)
    from g have "errors st1 = errors st" using get_destination_counters[of cfg st item] by simp
    with True g m e Cons.prems Cons.IH[of st2] show ?thesis by simp
  qed
qed








section \<open>Compressed folders: properties\<close>









section \<open>The watcher: properties\<close>








lemma move_file_live_effect:
  assumes "move_file cfg flt st fs src dst False = (ok, st2, fs2)"
    and "files_moved st2 \<noteq> files_moved st"
  shows "\<exists>real_dst. files fs2 = List.insert real_dst (removeAll src (files fs))"
proof -
  from move_file_counters(1)[OF assms(1)] assms(2) have ok: "ok" by (simp split: if_splits)
  from assms(1) ok obtain fs1 d where
    a: "fs1 = fs \<or> mkdir_parents flt fs dst = Inr fs1" and b: "shutil_move flt fs1 src d = Inr fs2"
    by (auto simp: move_file_def move_file_try_def move_file_except_eq Let_def split_beta
        split: sum.splits if_splits)
  from a have "files fs1 = files fs" using mkdir_parents_effect(1) by auto
  with shutil_move_effect[OF b] show ?thesis by auto
qed

lemma dry_run_ignored_by_parts:
  "should_skip_file (cfg\<lparr>settings := (settings cfg)\<lparr>dry_run := b\<rparr>\<rparr>) p = should_skip_file cfg p"
  "get_destination_for_file (cfg\<lparr>settings := (settings cfg)\<lparr>dry_run := b\<rparr>\<rparr>) st p
     = get_destination_for_file cfg st p"
  "move_file (cfg\<lparr>settings := (settings cfg)\<lparr>dry_run := b\<rparr>\<rparr>) flt st fs p d dry
     = move_file cfg flt st fs p d dry"
  by (simp_all add: should_skip_file_def get_destination_for_file_def move_file_def
        move_file_try_def cong: option.case_cong sum.case_cong if_cong)

text \<open>
  C10. The per-item operation of the watcher does not read the dry-run toggle: with the
  toggle set to any value it computes the same result. Its moves are live: whenever it
  counts a file as moved, the file system has changed, the file being taken away from
  its path and put at the destination; and for a path that exists and is not skipped its
  result is that of the mover called with dry-run false. The batch mode, in contrast, is governed by the
  toggle: \<^verbatim>\<open>main\<close> runs the pass dry when the flag or the toggle says so, and with the
  toggle on the files pass leaves the file system as it is.
\<close>

theorem watch_mode_always_live:
  "organize_file
     (env\<lparr>organizer_config :=
            (organizer_config env)\<lparr>settings := (settings (organizer_config env))\<lparr>dry_run := b\<rparr>\<rparr>\<rparr>)
     h p
     = organize_file env h p
   \<and> (files_moved (organizer_stats (snd (organize_file env h p))) \<noteq> files_moved (organizer_stats h)
        \<longrightarrow> (\<exists>real_dst. files (world (snd (organize_file env h p)))
                          = List.insert real_dst (removeAll p (files (world h)))))
   \<and> (exists_fault env p = None \<and> path_exists (world h) p
        \<and> \<not> should_skip_file (organizer_config env) p
        \<longrightarrow> (\<exists>dest_folder st1 success st2 fs2.
              get_destination_for_file (organizer_config env) (organizer_stats h) p
                = (dest_folder, st1)
              \<and> move_file (organizer_config env) (os_faults env) st1 (world h) p dest_folder False
                  = (success, st2, fs2)
              \<and> organize_file env h p = (None, h\<lparr>organizer_stats := st2, world := fs2\<rparr>)))
   \<and> main_dry_run a cfg = (a \<or> dict_get False (dry_run (settings cfg)))
   \<and> (dict_get False (dry_run (settings cfg)) \<longrightarrow>
        snd (snd (main_files_pass a cfg flt fs)) = fs)"
proof (intro conjI impI)
  show "organize_file
     (env\<lparr>organizer_config :=
            (organizer_config env)\<lparr>settings := (settings (organizer_config env))\<lparr>dry_run := b\<rparr>\<rparr>\<rparr>)
     h p
     = organize_file env h p"
    by (simp add: organize_file_def dry_run_ignored_by_parts
          cong: option.case_cong prod.case_cong if_cong)
next
  assume c: "files_moved (organizer_stats (snd (organize_file env h p)))
               \<noteq> files_moved (organizer_stats h)"
  let ?cfg = "organizer_config env"
  obtain dest_folder st1 where
    g: "get_destination_for_file ?cfg (organizer_stats h) p = (dest_folder, st1)"
    by (cases "get_destination_for_file ?cfg (organizer_stats h) p")
  obtain ok st2 fs2 where
    m: "move_file ?cfg (os_faults env) st1 (world h) p dest_folder False = (ok, st2, fs2)"
    by (cases "move_file ?cfg (os_faults env) st1 (world h) p dest_folder False")
  from c g m have r: "organize_file env h p = (None, h\<lparr>organizer_stats := st2, world := fs2\<rparr>)"
    by (auto simp: organize_file_def split: option.splits if_splits)
  from g have "files_moved st1 = files_moved (organizer_stats h)"
    using get_destination_counters(1)[of ?cfg "organizer_stats h" p] by simp
  with c r have "files_moved st2 \<noteq> files_moved st1" by simp
  from move_file_live_effect[OF m this] r
  show "\<exists>real_dst. files (world (snd (organize_file env h p)))
                          = List.insert real_dst (removeAll p (files (world h)))"
    by simp
next
  assume a: "exists_fault env p = None \<and> path_exists (world h) p
        \<and> \<not> should_skip_file (organizer_config env) p"
  let ?cfg = "organizer_config env"
  obtain dest_folder st1 where
    g: "get_destination_for_file ?cfg (organizer_stats h) p = (dest_folder, st1)"
    by (cases "get_destination_for_file ?cfg (organizer_stats h) p")
  obtain ok st2 fs2 where
    m: "move_file ?cfg (os_faults env) st1 (world h) p dest_folder False = (ok, st2, fs2)"
    by (cases "move_file ?cfg (os_faults env) st1 (world h) p dest_folder False")
  from a g m have "organize_file env h p = (None, h\<lparr>organizer_stats := st2, world := fs2\<rparr>)"
    by (simp add: organize_file_def)
  with g m
  show "\<exists>dest_folder st1 success st2 fs2.
              get_destination_for_file (organizer_config env) (organizer_stats h) p
                = (dest_folder, st1)
              \<and> move_file (organizer_config env) (os_faults env) st1 (world h) p dest_folder False
                  = (success, st2, fs2)
              \<and> organize_file env h p = (None, h\<lparr>organizer_stats := st2, world := fs2\<rparr>)"
    by blast
next
  show "main_dry_run a cfg = (a \<or> dict_get False (dry_run (settings cfg)))"
    by (simp add: main_dry_run_def)
next
  assume d: "dict_get False (dry_run (settings cfg))"
  let ?items = "iterdir fs (source_directory cfg)"
  obtain sd fd where l: "organize_files_loop cfg flt True ?items (initial_stats, fs) = (sd, fd)"
    by (cases "organize_files_loop cfg flt True ?items (initial_stats, fs)")
  from organize_files_loop_dry[OF l] l d
  show "snd (snd (main_files_pass a cfg flt fs)) = fs"
    by (simp add: main_files_pass_def main_dry_run_def organize_files_def Let_def)
qed

theorem watch_mode_always_live_witness:
  "dict_get False (dry_run (settings dry_config))
   \<and> exists_fault (quiet_env dry_config) [''dl'', ''a.pdf''] = None
   \<and> path_exists (world (initial_handler demo_fs)) [''dl'', ''a.pdf'']
   \<and> \<not> should_skip_file (organizer_config (quiet_env dry_config)) [''dl'', ''a.pdf'']
   \<and> (\<exists>dest_folder st1 success st2 fs2.
         move_file (organizer_config (quiet_env dry_config)) (os_faults (quiet_env dry_config))
             st1 (world (initial_handler demo_fs)) [''dl'', ''a.pdf''] dest_folder False
           = (success, st2, fs2)
         \<and> organize_file (quiet_env dry_config) (initial_handler demo_fs) [''dl'', ''a.pdf'']
             = (None, (initial_handler demo_fs)\<lparr>organizer_stats := st2, world := fs2\<rparr>))
   \<and> snd (snd (main_files_pass False dry_config no_faults demo_fs)) = demo_fs
   \<and> organize_file (quiet_env dry_config) (initial_handler demo_fs) [''dl'', ''a.pdf'']
       = organize_file (quiet_env demo_config) (initial_handler demo_fs) [''dl'', ''a.pdf'']
   \<and> files_moved (organizer_stats (initial_handler demo_fs)) = 0
   \<and> files_moved (organizer_stats (snd (organize_file (quiet_env dry_config)
        (initial_handler demo_fs) [''dl'', ''a.pdf'']))) = 1
   \<and> (\<exists>real_dst. files (world (snd (organize_file (quiet_env dry_config)
          (initial_handler demo_fs) [''dl'', ''a.pdf''])))
        = List.insert real_dst (removeAll [''dl'', ''a.pdf''] (files (world (initial_handler demo_fs)))))
   \<and> is_file (world (snd (organize_file (quiet_env dry_config)
        (initial_handler demo_fs) [''dl'', ''a.pdf'']))) [''st'', ''PDF'', ''a.pdf'']
   \<and> \<not> is_file (world (snd (organize_file (quiet_env dry_config)
        (initial_handler demo_fs) [''dl'', ''a.pdf'']))) [''dl'', ''a.pdf'']"
proof -
  let ?h = "initial_handler demo_fs" and ?p = "[''dl'', ''a.pdf'']"
  have t: "dict_get False (dry_run (settings dry_config))" by code_simp
  have q: "exists_fault (quiet_env dry_config) ?p = None" by (simp add: quiet_env_def)
  have x: "path_exists (world ?h) ?p" by code_simp
  have k: "\<not> should_skip_file (organizer_config (quiet_env dry_config)) ?p" by code_simp
  from watch_mode_always_live[where env = "quiet_env dry_config" and h = ?h and p = ?p,
         THEN conjunct2, THEN conjunct2, THEN conjunct1] q x k
  have y: "\<exists>dest_folder st1 success st2 fs2.
         move_file (organizer_config (quiet_env dry_config)) (os_faults (quiet_env dry_config))
             st1 (world ?h) ?p dest_folder False = (success, st2, fs2)
         \<and> organize_file (quiet_env dry_config) ?h ?p
             = (None, ?h\<lparr>organizer_stats := st2, world := fs2\<rparr>)"
    by blast
  from watch_mode_always_live[where cfg = dry_config and a = False and flt = no_faults
         and fs = demo_fs, THEN conjunct2, THEN conjunct2, THEN conjunct2, THEN conjunct2] t
  have b: "snd (snd (main_files_pass False dry_config no_faults demo_fs)) = demo_fs" by blast
  have env: "(quiet_env demo_config)\<lparr>organizer_config :=
               (organizer_config (quiet_env demo_config))
                 \<lparr>settings := (settings (organizer_config (quiet_env demo_config)))
                    \<lparr>dry_run := Some True\<rparr>\<rparr>\<rparr> = quiet_env dry_config"
    by (simp add: quiet_env_def dry_config_def demo_config_def)
  from watch_mode_always_live[where env = "quiet_env demo_config" and b = "Some True"
         and h = ?h and p = ?p, THEN conjunct1] env
  have same: "organize_file (quiet_env dry_config) ?h ?p = organize_file (quiet_env demo_config) ?h ?p"
    by simp
  have z: "files_moved (organizer_stats ?h) = 0"
    by (simp add: initial_handler_def initial_stats_def)
  have m: "files_moved (organizer_stats (snd (organize_file (quiet_env dry_config) ?h ?p))) = 1"
    by code_simp
  from watch_mode_always_live[where env = "quiet_env dry_config" and h = ?h and p = ?p,
         THEN conjunct2, THEN conjunct1] z m
  have r: "\<exists>real_dst. files (world (snd (organize_file (quiet_env dry_config) ?h ?p)))
        = List.insert real_dst (removeAll ?p (files (world ?h)))"
    by simp
  have i: "is_file (world (snd (organize_file (quiet_env dry_config) ?h ?p))) [''st'', ''PDF'', ''a.pdf'']"
    by code_simp
  have j: "\<not> is_file (world (snd (organize_file (quiet_env dry_config) ?h ?p))) ?p"
    by code_simp
  from t q x k y b same z m r i j show ?thesis by simp
qed

end
